theory Spec2Isabelle
  imports Main "HOL-Library.Word" "HOL-Library.Signed_Division"
begin

unbundle bit_operations_syntax

section \<open>JACK MIDI Commander: data model\<close>

text \<open>
  The embedding follows \<^verbatim>\<open>jack_midi_cmd.c\<close>. A \<^verbatim>\<open>my_midi_event_t\<close> is a record with
  the three fields of the struct: \<^verbatim>\<open>time\<close> (a \<^verbatim>\<open>jack_nframes_t\<close>, 32 bits unsigned),
  \<^verbatim>\<open>size\<close> (a \<^verbatim>\<open>size_t\<close>, here a natural number) and \<^verbatim>\<open>buffer\<close> (sixteen
  \<^verbatim>\<open>jack_midi_data_t\<close>, that is, bytes).
\<close>

record my_midi_event =
  time :: "32 word"
  size_ev :: nat
  buffer :: "8 word list"

datatype client_state_t = Run | Exit

text \<open>
  The globals of the program: the queue array with its two indices (\<^verbatim>\<open>int\<close> in C), the
  state flag, and what has been printed on the standard output so far.
\<close>

record state =
  event_queue :: "my_midi_event list"
  queued_events_start :: int
  queued_events_end :: int
  client_state :: client_state_t
  stdout :: "string list"

definition JACK_MIDI_QUEUE_SIZE :: int where
  "JACK_MIDI_QUEUE_SIZE = 256"

text \<open>
  The static initialiser of the C globals: every slot zeroed, both indices 0, state
  \<^verbatim>\<open>Run\<close>.
\<close>

definition zero_event :: my_midi_event where
  "zero_event = \<lparr>time = 0, size_ev = 0, buffer = replicate 16 0\<rparr>"

definition init_state :: state where
  "init_state = \<lparr>event_queue = replicate 256 zero_event,
     queued_events_start = 0, queued_events_end = 0,
     client_state = Run, stdout = []\<rparr>"

text \<open>
  The invariant under which the array accesses of the program are in bounds: the array has
  its 256 slots and both indices lie in \<open>[0, 256)\<close>. It holds initially and both queue
  operations keep it (lemmas \<open>queue_inv_init\<close>, \<open>queue_inv_queue_event\<close> and
  \<open>process_loop_returns\<close> below).
\<close>

definition queue_inv :: "state \<Rightarrow> bool" where
  "queue_inv s \<longleftrightarrow>
     int (length (event_queue s)) = JACK_MIDI_QUEUE_SIZE \<and>
     0 \<le> queued_events_start s \<and> queued_events_start s < JACK_MIDI_QUEUE_SIZE \<and>
     0 \<le> queued_events_end s \<and> queued_events_end s < JACK_MIDI_QUEUE_SIZE"

section \<open>The event queue\<close>

text \<open>
  \<^verbatim>\<open>queue_event\<close>: the C operator \<^verbatim>\<open>%\<close> truncates towards zero, which is \<open>smod\<close>.
  The early \<^verbatim>\<open>return\<close> on a full queue leaves every global as it was; the function is
  \<^verbatim>\<open>void\<close>, so the state is all it yields.
\<close>

definition queue_event :: "my_midi_event \<Rightarrow> state \<Rightarrow> state" where
  "queue_event me s =
     (if (queued_events_start s + 1) smod JACK_MIDI_QUEUE_SIZE = queued_events_end s
      then s
      else s\<lparr>event_queue := (event_queue s)[nat (queued_events_start s) := me],
             queued_events_start := (queued_events_start s + 1) smod JACK_MIDI_QUEUE_SIZE\<rparr>)"

text \<open>
  The JACK port buffer of one cycle is modelled by what has been handed to it: the list of
  the events written, each with its frame offset and the \<^verbatim>\<open>size\<close> bytes copied from the data
  pointer. \<^verbatim>\<open>jack_midi_clear_buffer\<close> and \<^verbatim>\<open>jack_midi_event_write\<close> belong to the JACK
  library; the capacity of the port buffer is JACK's and is not modelled. A \<^verbatim>\<open>size\<close> beyond
  the sixteen bytes of an event would make JACK read past the buffer in C; here the copy
  stops at the end of the buffer, and the parser never builds such an event (claim C10).
\<close>

type_synonym midi_buffer = "(32 word \<times> 8 word list) list"

definition jack_midi_clear_buffer :: "midi_buffer \<Rightarrow> midi_buffer" where
  "jack_midi_clear_buffer out = []"

definition jack_midi_event_write ::
  "midi_buffer \<Rightarrow> 32 word \<Rightarrow> 8 word list \<Rightarrow> nat \<Rightarrow> midi_buffer" where
  "jack_midi_event_write out t data data_size = out @ [(t, take data_size data)]"

text \<open>
  The \<^verbatim>\<open>while\<close> loop of \<^verbatim>\<open>process\<close>. On indices outside the invariant it need not stop,
  so it is a partial function: \<open>None\<close> is a loop that never ends.
\<close>

partial_function (option) process_loop :: "midi_buffer \<Rightarrow> state \<Rightarrow> (midi_buffer \<times> state) option" where
  "process_loop out s =
     (if queued_events_end s \<noteq> queued_events_start s
      then process_loop
             (jack_midi_event_write out
                (time (event_queue s ! nat (queued_events_end s)))
                (buffer (event_queue s ! nat (queued_events_end s)))
                (size_ev (event_queue s ! nat (queued_events_end s))))
             (s\<lparr>queued_events_end := (queued_events_end s + 1) smod JACK_MIDI_QUEUE_SIZE\<rparr>)
      else Some (out, s))"

text \<open>
  \<^verbatim>\<open>process\<close>: the buffer of the cycle is cleared first, whatever it held; the result is
  the return value 0, the buffer and the globals.
\<close>

definition process :: "midi_buffer \<Rightarrow> state \<Rightarrow> (int \<times> midi_buffer \<times> state) option" where
  "process out0 s =
     (case process_loop (jack_midi_clear_buffer out0) s of
        None \<Rightarrow> None
      | Some (out, s') \<Rightarrow> Some (0, out, s'))"

text \<open>
  The logical contents of the queue: the slots from the read index up to, and without, the
  write index, in that order. \<open>written\<close> is what \<^verbatim>\<open>process\<close> hands to JACK for an event.
\<close>

definition queue_contents :: "state \<Rightarrow> my_midi_event list" where
  "queue_contents s =
     map (\<lambda>i. event_queue s ! nat ((queued_events_end s + int i) mod JACK_MIDI_QUEUE_SIZE))
       [0 ..< nat ((queued_events_start s - queued_events_end s) mod JACK_MIDI_QUEUE_SIZE)]"

definition written :: "my_midi_event \<Rightarrow> 32 word \<times> 8 word list" where
  "written e = (time e, take (size_ev e) (buffer e))"

section \<open>The C library functions used by the parser\<close>

text \<open>
  \<^verbatim>\<open>strncmp\<close> and \<^verbatim>\<open>sscanf\<close> are the C library's; they are modelled after ISO C
  (7.24.4.4 and 7.21.6.2), for the directives the program uses. A C string is the characters
  before the first NUL: the end of a list stands for the terminator, and a NUL inside a
  list ends the string there too.
\<close>

definition c_str :: "string \<Rightarrow> string" where
  "c_str s = takeWhile (\<lambda>c. c \<noteq> CHR 0x00) s"

definition c_char_at :: "string \<Rightarrow> char" where
  "c_char_at s = (case s of [] \<Rightarrow> CHR 0x00 | c # _ \<Rightarrow> c)"

text \<open>
  \<^verbatim>\<open>strncmp\<close> compares at most \<open>n\<close> characters as unsigned bytes and stops after a NUL;
  the result is 0, or negative or positive by the first difference.
\<close>

fun strncmp :: "string \<Rightarrow> string \<Rightarrow> nat \<Rightarrow> int" where
  "strncmp s1 s2 0 = 0"
| "strncmp s1 s2 (Suc n) =
     (if c_char_at s1 \<noteq> c_char_at s2
      then (if (of_char (c_char_at s1) :: nat) < of_char (c_char_at s2) then - 1 else 1)
      else if c_char_at s1 = CHR 0x00 then 0
      else strncmp (tl s1) (tl s2) n)"

definition isspace :: "char \<Rightarrow> bool" where
  "isspace c \<longleftrightarrow> c \<in> {CHR '' '', CHR 0x09, CHR ''\<newline>'', CHR 0x0B, CHR 0x0C, CHR 0x0D}"

text \<open>The value of a character as a digit of the given base, if it is one.\<close>

definition digit_in :: "int \<Rightarrow> char \<Rightarrow> int option" where
  "digit_in base c =
     (let n = (of_char c :: int);
          d = (if 48 \<le> n \<and> n \<le> 57 then Some (n - 48)
               else if 97 \<le> n \<and> n \<le> 102 then Some (n - 87)
               else if 65 \<le> n \<and> n \<le> 70 then Some (n - 55)
               else None)
      in case d of None \<Rightarrow> None | Some v \<Rightarrow> if v < base then Some v else None)"

fun scan_digits :: "int \<Rightarrow> int \<Rightarrow> string \<Rightarrow> int \<times> string" where
  "scan_digits base acc [] = (acc, [])"
| "scan_digits base acc (c # cs) =
     (case digit_in base c of
        None \<Rightarrow> (acc, c # cs)
      | Some d \<Rightarrow> scan_digits base (acc * base + d) cs)"

text \<open>A number needs one digit at least; the result is its value and the input left.\<close>

definition scan_magnitude :: "int \<Rightarrow> string \<Rightarrow> (int \<times> string) option" where
  "scan_magnitude base s =
     (case s of
        [] \<Rightarrow> None
      | c # _ \<Rightarrow> if digit_in base c = None then None else Some (scan_digits base 0 s))"

definition has_hex_prefix :: "string \<Rightarrow> bool" where
  "has_hex_prefix s =
     (case s of
        c0 # c1 # _ \<Rightarrow> c0 = CHR ''0'' \<and> (c1 = CHR ''x'' \<or> c1 = CHR ''X'')
      | _ \<Rightarrow> False)"

datatype directive = White_space | Ordinary char | Conv_x | Conv_i

text \<open>
  The subject sequence of \<^verbatim>\<open>strtol\<close> with base 0 (for \<^verbatim>\<open>%i\<close>: a \<^verbatim>\<open>0x\<close> prefix reads
  hexadecimal, a leading \<^verbatim>\<open>0\<close> octal, anything else decimal) and of \<^verbatim>\<open>strtoul\<close> with
  base 16 (for \<^verbatim>\<open>%x\<close>: the prefix is optional), each after an optional sign. An input item
  that is only a prefix of a number (a lone sign, \<^verbatim>\<open>0x\<close> with no digit) is a matching
  failure.
\<close>

definition scan_unsigned :: "directive \<Rightarrow> string \<Rightarrow> (int \<times> string) option" where
  "scan_unsigned cv s =
     (if has_hex_prefix s then scan_magnitude 16 (drop 2 s)
      else if cv = Conv_x then scan_magnitude 16 s
      else if take 1 s = ''0'' then scan_magnitude 8 s
      else scan_magnitude 10 s)"

definition scan_number :: "directive \<Rightarrow> string \<Rightarrow> (bool \<times> int \<times> string) option" where
  "scan_number cv s =
     (case s of
        [] \<Rightarrow> None
      | c # cs \<Rightarrow>
          if c = CHR ''-'' then map_option (\<lambda>r. (True, r)) (scan_unsigned cv cs)
          else if c = CHR ''+'' then map_option (\<lambda>r. (False, r)) (scan_unsigned cv cs)
          else map_option (\<lambda>r. (False, r)) (scan_unsigned cv s))"

text \<open>
  ISO C leaves the behaviour undefined when the converted value cannot be represented in
  the object it is stored to; the model makes that an error value. \<^verbatim>\<open>%i\<close> stores an
  \<^verbatim>\<open>int\<close>, \<^verbatim>\<open>%x\<close> an \<^verbatim>\<open>unsigned int\<close> (negated in that type after a minus sign); the
  program's \<^verbatim>\<open>param\<close> array holds either as 32 bits.
\<close>

datatype error = Undefined_behaviour

definition convert :: "directive \<Rightarrow> bool \<Rightarrow> int \<Rightarrow> error + 32 word" where
  "convert cv neg m =
     (if cv = Conv_i
      then (let v = (if neg then - m else m)
            in if - (2 ^ 31) \<le> v \<and> v < 2 ^ 31 then Inr (word_of_int v)
               else Inl Undefined_behaviour)
      else (if m < 2 ^ 32 then Inr (if neg then - word_of_int m else word_of_int m)
            else Inl Undefined_behaviour))"

text \<open>
  The format string is read into its directives: white space, a conversion (\<^verbatim>\<open>%x\<close> and
  \<^verbatim>\<open>%i\<close>, the two the program uses) or an ordinary character.
\<close>

fun parse_format :: "string \<Rightarrow> directive list" where
  "parse_format [] = []"
| "parse_format [c] = (if isspace c then [White_space] else [Ordinary c])"
| "parse_format (c # d # cs) =
     (if isspace c then White_space # parse_format (d # cs)
      else if c = CHR ''%'' \<and> d = CHR ''x'' then Conv_x # parse_format cs
      else if c = CHR ''%'' \<and> d = CHR ''i'' then Conv_i # parse_format cs
      else Ordinary c # parse_format (d # cs))"

text \<open>
  Running the directives over the input. \<open>k\<close> counts the conversions assigned so far; the
  \<open>k\<close>-th one is stored through the \<open>k\<close>-th pointer argument, which in every call of the
  program is \<^verbatim>\<open>&param[k]\<close>. The result is the return value of \<^verbatim>\<open>sscanf\<close> (the number of
  items assigned, or \<^verbatim>\<open>EOF\<close> when the input ends before the first conversion) and the array.
\<close>

definition EOF :: int where
  "EOF = - 1"

definition input_failure :: "nat \<Rightarrow> int" where
  "input_failure k = (if k = 0 then EOF else int k)"

fun run_directives ::
  "directive list \<Rightarrow> string \<Rightarrow> nat \<Rightarrow> 32 word list \<Rightarrow> error + (int \<times> 32 word list)" where
  "run_directives [] inp k param = Inr (int k, param)"
| "run_directives (White_space # ds) inp k param =
     run_directives ds (dropWhile isspace inp) k param"
| "run_directives (Ordinary c # ds) inp k param =
     (case inp of
        [] \<Rightarrow> Inr (input_failure k, param)
      | x # xs \<Rightarrow> if x = c then run_directives ds xs k param else Inr (int k, param))"
| "run_directives (cv # ds) inp k param =
     (case dropWhile isspace inp of
        [] \<Rightarrow> Inr (input_failure k, param)
      | x # xs \<Rightarrow>
          (case scan_number cv (x # xs) of
             None \<Rightarrow> Inr (int k, param)
           | Some (neg, m, rest) \<Rightarrow>
               (case convert cv neg m of
                  Inl e \<Rightarrow> Inl e
                | Inr v \<Rightarrow> run_directives ds rest (Suc k) (param[k := v]))))"

definition sscanf :: "string \<Rightarrow> string \<Rightarrow> 32 word list \<Rightarrow> error + (int \<times> 32 word list)" where
  "sscanf str format param = run_directives (parse_format format) (c_str str) 0 param"

definition printf :: "string \<Rightarrow> state \<Rightarrow> state" where
  "printf text s = s\<lparr>stdout := stdout s @ [text]\<rparr>"

section \<open>The command parser\<close>

text \<open>
  The macro \<^verbatim>\<open>THREEBYTES\<close>: the three bytes are masked in \<^verbatim>\<open>int\<close> and stored as bytes,
  then the event is queued.
\<close>

definition THREEBYTES ::
  "my_midi_event \<Rightarrow> 32 word \<Rightarrow> 32 word \<Rightarrow> 32 word \<Rightarrow> state \<Rightarrow> state" where
  "THREEBYTES event A B C s =
     queue_event
       (event\<lparr>size_ev := 3,
              buffer := (buffer event)[0 := ucast (A AND 0xff),
                                       1 := ucast (B AND 0x7f),
                                       2 := ucast (C AND 0x7f)]\<rparr>) s"

text \<open>
  \<^verbatim>\<open>parse_message\<close>. The locals \<^verbatim>\<open>param\<close> and \<^verbatim>\<open>event\<close> are not initialised in C: what
  they hold on entry is given by \<open>param0\<close> and \<open>event0\<close>, and only \<^verbatim>\<open>event.time\<close> is set
  before the branches. Every \<^verbatim>\<open>sscanf\<close> writes to the same \<^verbatim>\<open>param\<close>, so the array is
  passed from one attempt to the next. The result is the return value and the globals.
\<close>

definition parse_message ::
  "32 word list \<Rightarrow> my_midi_event \<Rightarrow> string \<Rightarrow> state \<Rightarrow> error + (int \<times> state)" where
  "parse_message param0 event0 msg s =
     (let event = event0\<lparr>time := 0\<rparr> in
      if strncmp msg ''exit'' 4 = 0 then Inr (0, s\<lparr>client_state := Exit\<rparr>)
      else if strncmp msg ''reconnect'' 9 = 0 then Inr (1, s)
      else if strncmp msg ''help'' 4 = 0
      then Inr (0, printf '' -- Sorry, help yourself and read the source.\<newline>'' s)
      else
     (case sscanf msg ''. %x %x %x\<newline>'' param0 of Inl e \<Rightarrow> Inl e | Inr (r1, param1) \<Rightarrow>
      if 3 = r1 then Inr (0, THREEBYTES event (param1 ! 0) (param1 ! 1) (param1 ! 2) s)
      else
     (case sscanf msg ''CC %i %i\<newline>'' param1 of Inl e \<Rightarrow> Inl e | Inr (r2, param2) \<Rightarrow>
      if 2 = r2 then Inr (0, THREEBYTES event 0xb0 (param2 ! 0) (param2 ! 1) s)
      else
     (case sscanf msg ''N %i %i\<newline>'' param2 of Inl e \<Rightarrow> Inl e | Inr (r3, param3) \<Rightarrow>
      if 2 = r3 then Inr (0, THREEBYTES event 0x90 (param3 ! 0) (param3 ! 1) s)
      else
     (case sscanf msg ''n %i %i\<newline>'' param3 of Inl e \<Rightarrow> Inl e | Inr (r4, param4) \<Rightarrow>
      if 2 = r4 then Inr (0, THREEBYTES event 0x80 (param4 ! 0) (param4 ! 1) s)
      else
     (case sscanf msg ''2 %i\<newline>'' param4 of Inl e \<Rightarrow> Inl e | Inr (r5, param5) \<Rightarrow>
      if 2 = r5
      then Inr (0, queue_event
                     (event\<lparr>size_ev := 2,
                            buffer := (buffer event)[0 := ucast (param5 ! 0 AND 0xff),
                                                     1 := ucast (param5 ! 1 AND 0xff)]\<rparr>) s)
      else
     (case sscanf msg ''1 %i\<newline>'' param5 of Inl e \<Rightarrow> Inl e | Inr (r6, param6) \<Rightarrow>
      if 1 = r6
      then Inr (0, queue_event
                     (event\<lparr>size_ev := 1,
                            buffer := (buffer event)[0 := ucast (param6 ! 0 AND 0xff)]\<rparr>) s)
      else Inr (0, printf '' -- Invalid Message, try 'help'\<newline>'' s))))))))"

text \<open>
  What the stack may hold on entry: an array of three \<^verbatim>\<open>int\<close> and an event whose buffer
  has its sixteen bytes.
\<close>

definition stack_ok :: "32 word list \<Rightarrow> my_midi_event \<Rightarrow> bool" where
  "stack_ok param0 event0 \<longleftrightarrow> length param0 = 3 \<and> length (buffer event0) = 16"

section \<open>Integer numerals\<close>

text \<open>
  The integers an operator can type where a rule has \<^verbatim>\<open>%i\<close>, written as C writes integer
  constants: an optional sign, then decimal digits that do not begin with 0, or a 0 followed
  by octal digits, or \<^verbatim>\<open>0x\<close> or \<^verbatim>\<open>0X\<close> followed by hexadecimal digits. These definitions are
  not part of the program; they say which lines a statement is about and which integer each
  numeral denotes. The value of a digit is read from a table.
\<close>

definition digit_table :: "(char \<times> int) list" where
  "digit_table =
     [(CHR ''0'', 0), (CHR ''1'', 1), (CHR ''2'', 2), (CHR ''3'', 3), (CHR ''4'', 4),
      (CHR ''5'', 5), (CHR ''6'', 6), (CHR ''7'', 7), (CHR ''8'', 8), (CHR ''9'', 9),
      (CHR ''a'', 10), (CHR ''b'', 11), (CHR ''c'', 12), (CHR ''d'', 13), (CHR ''e'', 14),
      (CHR ''f'', 15),
      (CHR ''A'', 10), (CHR ''B'', 11), (CHR ''C'', 12), (CHR ''D'', 13), (CHR ''E'', 14),
      (CHR ''F'', 15)]"

definition digit_value :: "char \<Rightarrow> int" where
  "digit_value c = (case map_of digit_table c of None \<Rightarrow> 0 | Some d \<Rightarrow> d)"

definition is_digit :: "int \<Rightarrow> char \<Rightarrow> bool" where
  "is_digit base c = (case map_of digit_table c of None \<Rightarrow> False | Some d \<Rightarrow> d < base)"

definition digits_value :: "int \<Rightarrow> string \<Rightarrow> int" where
  "digits_value base ds = foldl (\<lambda>v c. v * base + digit_value c) 0 ds"

datatype sign = No_sign | Plus_sign | Minus_sign

datatype numeral_i = Decimal_numeral string | Octal_numeral string | Hex_numeral char string

fun sign_text :: "sign \<Rightarrow> string" where
  "sign_text No_sign = []"
| "sign_text Plus_sign = ''+''"
| "sign_text Minus_sign = ''-''"

text \<open>
  An octal numeral is its leading 0 and the digits after it, so \<^verbatim>\<open>0\<close> itself is the octal
  numeral without further digits; a hexadecimal numeral carries the letter of its prefix.
\<close>

fun body_text :: "numeral_i \<Rightarrow> string" where
  "body_text (Decimal_numeral ds) = ds"
| "body_text (Octal_numeral ds) = CHR ''0'' # ds"
| "body_text (Hex_numeral x ds) = CHR ''0'' # x # ds"

fun numeral_ok :: "numeral_i \<Rightarrow> bool" where
  "numeral_ok (Decimal_numeral ds) \<longleftrightarrow>
     ds \<noteq> [] \<and> list_all (is_digit 10) ds \<and> take 1 ds \<noteq> ''0''"
| "numeral_ok (Octal_numeral ds) \<longleftrightarrow> list_all (is_digit 8) ds"
| "numeral_ok (Hex_numeral x ds) \<longleftrightarrow>
     (x = CHR ''x'' \<or> x = CHR ''X'') \<and> ds \<noteq> [] \<and> list_all (is_digit 16) ds"

fun magnitude :: "numeral_i \<Rightarrow> int" where
  "magnitude (Decimal_numeral ds) = digits_value 10 ds"
| "magnitude (Octal_numeral ds) = digits_value 8 ds"
| "magnitude (Hex_numeral x ds) = digits_value 16 ds"

definition numeral_text :: "sign \<Rightarrow> numeral_i \<Rightarrow> string" where
  "numeral_text sg n = sign_text sg @ body_text n"

definition numeral_value :: "sign \<Rightarrow> numeral_i \<Rightarrow> int" where
  "numeral_value sg n = (if sg = Minus_sign then - magnitude n else magnitude n)"

text \<open>The range of a C \<^verbatim>\<open>int\<close>.\<close>

definition in_int_range :: "int \<Rightarrow> bool" where
  "in_int_range v \<longleftrightarrow> - (2 ^ 31) \<le> v \<and> v < 2 ^ 31"


section \<open>Index arithmetic\<close>

lemma smod_idx: "0 \<le> (i::int) \<Longrightarrow> (i + 1) smod 256 = (i + 1) mod 256"
  by (simp add: signed_modulo_int_def)

lemma idx_succ:
  "0 \<le> (w::int) \<Longrightarrow> w < 256 \<Longrightarrow> (w + 1) mod 256 = (if w = 255 then 0 else w + 1)"
  by simp

lemma idx_diff:
  assumes "0 \<le> (w::int)" "w < 256" "0 \<le> r" "r < 256"
  shows "(w - r) mod 256 = (if r \<le> w then w - r else w - r + 256)"
proof (cases "r \<le> w")
  case True
  then show ?thesis using assms by (simp add: mod_pos_pos_trivial)
next
  case False
  have "(w - r) mod 256 = (w - r + 256) mod 256" by simp
  also have "\<dots> = w - r + 256" using False assms by (intro mod_pos_pos_trivial) linarith+
  finally show ?thesis using False by simp
qed

lemma slot_index:
  fixes w r :: int
  assumes "0 \<le> w" "w < 256" "0 \<le> r" "r < 256" "i < 256"
  shows "((r + int i) mod 256 = w) = (int i = (w - r) mod 256)"
proof
  assume "(r + int i) mod 256 = w"
  then have "(w - r) mod 256 = ((r + int i) mod 256 - r) mod 256" by simp
  also have "\<dots> = (r + int i - r) mod 256" by (simp only: mod_diff_left_eq)
  also have "\<dots> = int i" using assms by simp
  finally show "int i = (w - r) mod 256" by simp
next
  assume "int i = (w - r) mod 256"
  then have "(r + int i) mod 256 = (r + (w - r) mod 256) mod 256" by simp
  also have "\<dots> = (r + (w - r)) mod 256" by (simp only: mod_add_right_eq)
  also have "\<dots> = w" using assms by simp
  finally show "(r + int i) mod 256 = w" .
qed

section \<open>The queue invariant and the logical contents\<close>

lemma queue_inv_bounds:
  "queue_inv s \<Longrightarrow> 0 \<le> queued_events_start s \<and> queued_events_start s < 256 \<and>
      0 \<le> queued_events_end s \<and> queued_events_end s < 256 \<and> length (event_queue s) = 256"
  by (simp add: queue_inv_def JACK_MIDI_QUEUE_SIZE_def)

lemma queue_inv_init: "queue_inv init_state"
  by (simp add: queue_inv_def init_state_def JACK_MIDI_QUEUE_SIZE_def)

lemma queue_inv_queue_event: "queue_inv s \<Longrightarrow> queue_inv (queue_event me s)"
  by (auto simp: queue_inv_def queue_event_def JACK_MIDI_QUEUE_SIZE_def smod_idx)

lemma queue_inv_advance_end:
  "queue_inv s \<Longrightarrow>
   queue_inv (s\<lparr>queued_events_end := (queued_events_end s + 1) smod JACK_MIDI_QUEUE_SIZE\<rparr>)"
  by (auto simp: queue_inv_def JACK_MIDI_QUEUE_SIZE_def smod_idx)

lemma length_queue_contents:
  "length (queue_contents s) = nat ((queued_events_start s - queued_events_end s) mod 256)"
  by (simp add: queue_contents_def JACK_MIDI_QUEUE_SIZE_def)

lemma length_queue_contents_le: "length (queue_contents s) \<le> 255"
proof -
  have "(queued_events_start s - queued_events_end s) mod 256 < 256" by simp
  then show ?thesis by (simp only: length_queue_contents)
qed

lemma full_iff:
  assumes "queue_inv s"
  shows "(queued_events_start s + 1) smod JACK_MIDI_QUEUE_SIZE = queued_events_end s
         \<longleftrightarrow> length (queue_contents s) = 255"
proof -
  let ?w = "queued_events_start s" and ?r = "queued_events_end s"
  note b = queue_inv_bounds [OF assms]
  have "((?w + 1) mod 256 = ?r) = ((?w - ?r) mod 256 = 255)"
    using b by (simp only: idx_succ idx_diff) arith
  moreover have "(nat ((?w - ?r) mod 256) = 255) = ((?w - ?r) mod 256 = 255)"
    by auto
  ultimately show ?thesis
    using b by (simp add: length_queue_contents JACK_MIDI_QUEUE_SIZE_def smod_idx)
qed

lemma empty_iff:
  assumes "queue_inv s"
  shows "queued_events_end s = queued_events_start s \<longleftrightarrow> queue_contents s = []"
proof -
  note b = queue_inv_bounds [OF assms]
  have "((queued_events_start s - queued_events_end s) mod 256 = 0)
          = (queued_events_end s = queued_events_start s)"
    using b by (simp only: idx_diff) arith
  moreover have "(queue_contents s = []) = (length (queue_contents s) = 0)" by simp
  ultimately show ?thesis
    by (simp only: length_queue_contents) auto
qed

text \<open>On a queue that is not full, \<^verbatim>\<open>queue_event\<close> appends to the logical contents.\<close>

lemma queue_contents_queue_event:
  assumes inv: "queue_inv s" and nf: "length (queue_contents s) \<noteq> 255"
  shows "queue_contents (queue_event me s) = queue_contents s @ [me]"
proof -
  let ?w = "queued_events_start s" and ?r = "queued_events_end s"
  let ?n = "nat ((?w - ?r) mod 256)"
  note b = queue_inv_bounds [OF inv]
  have n: "?n < 255" using nf length_queue_contents_le [of s] by (simp add: length_queue_contents)
  have nf': "(?w + 1) smod JACK_MIDI_QUEUE_SIZE \<noteq> ?r"
    using nf full_iff [OF inv] by simp
  have w': "(?w + 1) smod JACK_MIDI_QUEUE_SIZE = (?w + 1) mod 256"
    using b by (simp add: JACK_MIDI_QUEUE_SIZE_def smod_idx)
  have "(?w + 1 - ?r) mod 256 = ((?w - ?r) + 1) mod 256"
    by (simp add: algebra_simps)
  also have "\<dots> = ((?w - ?r) mod 256 + 1) mod 256"
    by (simp only: mod_add_left_eq)
  also have "\<dots> = (?w - ?r) mod 256 + 1"
    using n by (intro mod_pos_pos_trivial) auto
  finally have len: "nat (((?w + 1) mod 256 - ?r) mod 256) = Suc ?n"
    by (simp add: mod_diff_left_eq nat_add_distrib)
  have old: "(event_queue s)[nat ?w := me] ! nat ((?r + int i) mod 256)
               = event_queue s ! nat ((?r + int i) mod 256)" if "i < ?n" for i
  proof -
    have "i < 256" using that n by simp
    then have "(?r + int i) mod 256 \<noteq> ?w"
      using slot_index [of ?w ?r i] b that by auto
    moreover have "0 \<le> (?r + int i) mod 256" by simp
    ultimately have "nat ((?r + int i) mod 256) \<noteq> nat ?w" using b by auto
    then show ?thesis by simp
  qed
  have "(?r + int ?n) mod 256 = ?w"
    using slot_index [of ?w ?r ?n] b n by auto
  then have new: "(event_queue s)[nat ?w := me] ! nat ((?r + int ?n) mod 256) = me"
    using b by simp
  have qe: "queue_event me s = s\<lparr>event_queue := (event_queue s)[nat ?w := me],
                                   queued_events_start := (?w + 1) mod 256\<rparr>"
    using nf' by (simp add: queue_event_def w')
  have "queue_contents (queue_event me s)
          = map (\<lambda>i. (event_queue s)[nat ?w := me] ! nat ((?r + int i) mod 256)) [0 ..< Suc ?n]"
    by (simp add: qe queue_contents_def JACK_MIDI_QUEUE_SIZE_def len)
  also have "\<dots> = map (\<lambda>i. (event_queue s)[nat ?w := me] ! nat ((?r + int i) mod 256)) [0 ..< ?n] @ [me]"
    using new by simp
  also have "map (\<lambda>i. (event_queue s)[nat ?w := me] ! nat ((?r + int i) mod 256)) [0 ..< ?n]
               = queue_contents s"
    using old by (simp add: queue_contents_def JACK_MIDI_QUEUE_SIZE_def)
  finally show ?thesis .
qed

text \<open>One turn of the loop of \<^verbatim>\<open>process\<close> takes the head of the logical contents.\<close>

lemma queue_contents_dequeue:
  assumes inv: "queue_inv s" and ne: "queued_events_end s \<noteq> queued_events_start s"
  shows "queue_contents s =
           event_queue s ! nat (queued_events_end s) #
           queue_contents (s\<lparr>queued_events_end := (queued_events_end s + 1) smod JACK_MIDI_QUEUE_SIZE\<rparr>)"
proof -
  let ?w = "queued_events_start s" and ?r = "queued_events_end s"
  let ?n = "nat ((?w - ?r) mod 256)"
  note b = queue_inv_bounds [OF inv]
  have r': "(?r + 1) smod 256 = (?r + 1) mod 256"
    using b by (simp add: smod_idx)
  have pos: "1 \<le> (?w - ?r) mod 256"
    using b ne by (simp only: idx_diff) arith
  have "(?w - (?r + 1) mod 256) mod 256 = (?w - (?r + 1)) mod 256"
    by (simp only: mod_diff_right_eq)
  also have "\<dots> = ((?w - ?r) - 1) mod 256" by (simp add: algebra_simps)
  also have "\<dots> = ((?w - ?r) mod 256 - 1) mod 256" by (simp only: mod_diff_left_eq)
  also have "\<dots> = (?w - ?r) mod 256 - 1"
    using pos by (intro mod_pos_pos_trivial) (auto intro: less_trans [OF _ pos_mod_bound])
  finally have len: "?n = Suc (nat ((?w - (?r + 1) mod 256) mod 256))"
    using pos by simp
  have shift: "((?r + 1) mod 256 + int i) mod 256 = (?r + int (Suc i)) mod 256" for i
  proof -
    have "((?r + 1) mod 256 + int i) mod 256 = ((?r + 1) + int i) mod 256"
      by (simp only: mod_add_left_eq)
    then show ?thesis by (simp add: algebra_simps)
  qed
  have "queue_contents s = map (\<lambda>i. event_queue s ! nat ((?r + int i) mod 256)) [0 ..< ?n]"
    by (simp add: queue_contents_def JACK_MIDI_QUEUE_SIZE_def)
  also have "\<dots> = event_queue s ! nat (?r mod 256) #
      map (\<lambda>i. event_queue s ! nat ((?r + int (Suc i)) mod 256))
        [0 ..< nat ((?w - (?r + 1) mod 256) mod 256)]"
    unfolding len
    by (simp only: upt_conv_Cons zero_less_Suc list.map map_Suc_upt [symmetric] map_map o_def)
       simp
  also have "?r mod 256 = ?r" using b by simp
  finally show ?thesis
    by (simp add: queue_contents_def JACK_MIDI_QUEUE_SIZE_def r' shift del: of_nat_Suc)
qed

text \<open>
  Under the invariant the loop of \<^verbatim>\<open>process\<close> ends: it writes the logical contents in
  order and leaves the read index on the write index.
\<close>

lemma process_loop_returns:
  "queue_inv s \<Longrightarrow>
   process_loop out s =
     Some (out @ map written (queue_contents s),
           s\<lparr>queued_events_end := queued_events_start s\<rparr>)"
proof (induction "length (queue_contents s)" arbitrary: s out)
  case 0
  then have "queued_events_end s = queued_events_start s"
    by (simp add: empty_iff)
  then show ?case
    using 0 by (subst process_loop.simps) simp
next
  case (Suc n)
  let ?s' = "s\<lparr>queued_events_end := (queued_events_end s + 1) smod JACK_MIDI_QUEUE_SIZE\<rparr>"
  let ?e = "event_queue s ! nat (queued_events_end s)"
  from Suc.hyps(2) have ne: "queued_events_end s \<noteq> queued_events_start s"
    using empty_iff [OF Suc.prems] by auto
  have split: "queue_contents s = ?e # queue_contents ?s'"
    by (rule queue_contents_dequeue [OF Suc.prems ne])
  then have "n = length (queue_contents ?s')"
    using Suc.hyps(2) by simp
  then have "process_loop (out @ [written ?e]) ?s' =
      Some ((out @ [written ?e]) @ map written (queue_contents ?s'),
            ?s'\<lparr>queued_events_end := queued_events_start ?s'\<rparr>)"
    using queue_inv_advance_end [OF Suc.prems] by (rule Suc.hyps(1))
  then show ?case
    using ne by (subst process_loop.simps) (simp add: split jack_midi_event_write_def written_def)
qed

lemma queue_contents_fold:
  "queue_inv s \<Longrightarrow> length (queue_contents s) + length es \<le> 255 \<Longrightarrow>
   queue_inv (fold queue_event es s) \<and>
   queue_contents (fold queue_event es s) = queue_contents s @ es \<and>
   queued_events_end (fold queue_event es s) = queued_events_end s"
proof (induction es arbitrary: s)
  case Nil
  then show ?case by simp
next
  case (Cons e es)
  have nf: "length (queue_contents s) \<noteq> 255" using Cons.prems by simp
  have c: "queue_contents (queue_event e s) = queue_contents s @ [e]"
    using Cons.prems(1) nf by (rule queue_contents_queue_event)
  have e: "queued_events_end (queue_event e s) = queued_events_end s"
    by (simp add: queue_event_def)
  have "length (queue_contents (queue_event e s)) + length es \<le> 255"
    using Cons.prems(2) by (simp add: c)
  from Cons.IH [OF queue_inv_queue_event [OF Cons.prems(1)] this]
  show ?case by (simp add: c e)
qed

section \<open>Claims about the event queue and the realtime callback\<close>

text \<open>
  Claim C1 (round trip, first in first out). Take a queue that satisfies the invariant and
  is empty (read index equal to write index), and any list \<open>es\<close> of at most 255 events.
  After \<^verbatim>\<open>queue_event\<close> has been called on each of them in order, the queue holds exactly
  \<open>es\<close>, and one call of \<^verbatim>\<open>process\<close> returns (with value 0), has written exactly these
  events to the port buffer, in the order they were queued, each once, and leaves the queue
  empty.
\<close>

theorem fifo_round_trip:
  assumes "queue_inv s" and "queued_events_end s = queued_events_start s"
    and "length es \<le> 255"
  shows "queue_contents (fold queue_event es s) = es \<and>
         (\<exists>s'. process out0 (fold queue_event es s) = Some (0, map written es, s') \<and>
               queued_events_end s' = queued_events_start s' \<and> queue_contents s' = [])"
proof -
  let ?q = "fold queue_event es s"
  have emp: "queue_contents s = []" using assms(1,2) by (simp add: empty_iff)
  then have "length (queue_contents s) + length es \<le> 255" using assms(3) by simp
  from queue_contents_fold [OF assms(1) this]
  have inv: "queue_inv ?q" and c: "queue_contents ?q = es"
    by (simp_all add: emp)
  let ?s' = "?q\<lparr>queued_events_end := queued_events_start ?q\<rparr>"
  have p: "process out0 ?q = Some (0, map written es, ?s')"
    by (simp add: process_def jack_midi_clear_buffer_def process_loop_returns [OF inv] c)
  have "queue_inv ?s'" using inv by (simp add: queue_inv_def)
  then have "queue_contents ?s' = []" by (simp add: empty_iff [symmetric])
  with p c show ?thesis by simp
qed

theorem fifo_round_trip_witness:
  "queue_inv init_state \<and>
   queued_events_end init_state = queued_events_start init_state \<and>
   length [\<lparr>time = 0, size_ev = 3, buffer = [0x90, 60, 100] @ replicate 13 0\<rparr>,
           \<lparr>time = 0, size_ev = 1, buffer = [0xFE] @ replicate 15 0\<rparr>] \<le> 255 \<and>
   (\<exists>s'. process []
           (fold queue_event
              [\<lparr>time = 0, size_ev = 3, buffer = [0x90, 60, 100] @ replicate 13 0\<rparr>,
               \<lparr>time = 0, size_ev = 1, buffer = [0xFE] @ replicate 15 0\<rparr>] init_state)
         = Some (0, [(0, [0x90, 60, 100]), (0, [0xFE])], s'))"
proof -
  have h1: "queue_inv init_state" by (rule queue_inv_init)
  have h2: "queued_events_end init_state = queued_events_start init_state"
    by (simp add: init_state_def)
  have h3: "length [\<lparr>time = 0, size_ev = 3, buffer = [0x90, 60, 100] @ replicate 13 0\<rparr>,
           \<lparr>time = 0, size_ev = 1, buffer = [0xFE] @ replicate 15 0\<rparr>] \<le> 255" by simp
  from fifo_round_trip [OF h1 h2 h3, of "[]"] h1 h2 show ?thesis
    by (auto simp: written_def)
qed

text \<open>
  Claim C2, as amended (a full queue drops the event silently). In every state that satisfies
  the invariant: when \<open>(write + 1) mod 256\<close> is the read index, \<^verbatim>\<open>queue_event\<close> returns
  without any effect, so both indices, every slot and with them the logical contents are as
  before; the function is \<^verbatim>\<open>void\<close> and returns no failure value. In every other state it
  copies the event into the slot at the write index and advances the write index by one
  modulo 256, which appends the event to the logical contents.
\<close>

theorem queue_event_full_or_append:
  assumes "queue_inv s"
  shows "if (queued_events_start s + 1) mod 256 = queued_events_end s
         then queue_event me s = s
         else queue_event me s =
                s\<lparr>event_queue := (event_queue s)[nat (queued_events_start s) := me],
                  queued_events_start := (queued_events_start s + 1) mod 256\<rparr> \<and>
              event_queue (queue_event me s) ! nat (queued_events_start s) = me \<and>
              queue_contents (queue_event me s) = queue_contents s @ [me]"
proof -
  note b = queue_inv_bounds [OF assms]
  have w: "(queued_events_start s + 1) smod JACK_MIDI_QUEUE_SIZE
             = (queued_events_start s + 1) mod 256"
    using b by (simp add: JACK_MIDI_QUEUE_SIZE_def smod_idx)
  show ?thesis
  proof (cases "(queued_events_start s + 1) mod 256 = queued_events_end s")
    case True
    then show ?thesis by (simp add: queue_event_def w)
  next
    case False
    then have "length (queue_contents s) \<noteq> 255"
      using full_iff [OF assms] w by simp
    then have c: "queue_contents (queue_event me s) = queue_contents s @ [me]"
      by (rule queue_contents_queue_event [OF assms])
    have q: "queue_event me s =
                s\<lparr>event_queue := (event_queue s)[nat (queued_events_start s) := me],
                  queued_events_start := (queued_events_start s + 1) mod 256\<rparr>"
      using False by (simp add: queue_event_def w)
    have "nat (queued_events_start s) < length (event_queue s)"
      using b by linarith
    then have "event_queue (queue_event me s) ! nat (queued_events_start s) = me"
      by (simp add: q)
    with c q have r: "queue_event me s =
                s\<lparr>event_queue := (event_queue s)[nat (queued_events_start s) := me],
                  queued_events_start := (queued_events_start s + 1) mod 256\<rparr> \<and>
              event_queue (queue_event me s) ! nat (queued_events_start s) = me \<and>
              queue_contents (queue_event me s) = queue_contents s @ [me]"
      by (intro conjI)
    show ?thesis unfolding if_not_P [OF False] by (rule r)

  qed
qed

theorem queue_event_full_or_append_witness:
  "queue_inv (init_state\<lparr>queued_events_start := 255\<rparr>) \<and>
   queue_event \<lparr>time = 0, size_ev = 1, buffer = replicate 16 7\<rparr>
     (init_state\<lparr>queued_events_start := 255\<rparr>) = init_state\<lparr>queued_events_start := 255\<rparr> \<and>
   queue_inv init_state \<and>
   queue_contents (queue_event \<lparr>time = 0, size_ev = 1, buffer = replicate 16 7\<rparr> init_state)
     = queue_contents init_state @ [\<lparr>time = 0, size_ev = 1, buffer = replicate 16 7\<rparr>]"
proof -
  have h1: "queue_inv (init_state\<lparr>queued_events_start := 255\<rparr>)"
    by (simp add: queue_inv_def init_state_def JACK_MIDI_QUEUE_SIZE_def)
  have f: "(queued_events_start (init_state\<lparr>queued_events_start := 255\<rparr>) + 1) mod 256
             = queued_events_end (init_state\<lparr>queued_events_start := 255\<rparr>)"
    by (simp add: init_state_def)
  have h2: "queue_inv init_state" by (rule queue_inv_init)
  have nf: "(queued_events_start init_state + 1) mod 256 \<noteq> queued_events_end init_state"
    by (simp add: init_state_def)
  note a = queue_event_full_or_append [OF h1,
      of "\<lparr>time = 0, size_ev = 1, buffer = replicate 16 7\<rparr>", unfolded if_P [OF f]]
  note b = queue_event_full_or_append [OF h2,
      of "\<lparr>time = 0, size_ev = 1, buffer = replicate 16 7\<rparr>", unfolded if_not_P [OF nf],
      THEN conjunct2, THEN conjunct2]
  from a b h1 h2 show ?thesis by (simp only: simp_thms)
qed

text \<open>
  Claim C7 (an empty queue gives a silent cycle). Whenever the read index equals the write
  index, \<^verbatim>\<open>process\<close> returns 0, the port buffer is cleared and nothing is written to it,
  whatever it held before, and the globals, the two indices among them, are unchanged.
\<close>

theorem process_empty_queue:
  assumes "queued_events_end s = queued_events_start s"
  shows "process out0 s = Some (0, [], s)"
  using assms
  by (simp add: process_def jack_midi_clear_buffer_def process_loop.simps)

theorem process_empty_queue_witness:
  "queued_events_end init_state = queued_events_start init_state \<and>
   process [(0, [0x90, 60, 100])] init_state = Some (0, [], init_state)"
proof -
  have h: "queued_events_end init_state = queued_events_start init_state"
    by (simp add: init_state_def)
  from process_empty_queue [OF h, of "[(0, [0x90, 60, 100])]"] h show ?thesis by simp
qed

section \<open>The shape of every result of the parser\<close>

lemma strncmp_prefix_exit:
  assumes "take 4 msg = ''exit''"
  shows "strncmp msg ''exit'' 4 = 0"
proof -
  from assms obtain rest where "msg = ''exit'' @ rest"
    by (metis append_take_drop_id)
  then show ?thesis
    by (simp add: eval_nat_numeral c_char_at_def)
qed

text \<open>
  Whenever \<^verbatim>\<open>parse_message\<close> returns, it has taken one of five ways: the state flag set,
  the request to reconnect, one of the two diagnostics printed, or one event handed to
  \<^verbatim>\<open>queue_event\<close>.
\<close>

lemma parse_message_cases:
  assumes "parse_message param0 event0 msg s = Inr (rv, s')"
  shows "(rv = 0 \<and> s' = s\<lparr>client_state := Exit\<rparr>) \<or>
         (rv = 1 \<and> s' = s) \<or>
         (rv = 0 \<and> s' = printf '' -- Sorry, help yourself and read the source.\<newline>'' s) \<or>
         (rv = 0 \<and> s' = printf '' -- Invalid Message, try 'help'\<newline>'' s) \<or>
         (rv = 0 \<and> (\<exists>ev. s' = queue_event ev s \<and> time ev = 0 \<and> size_ev ev \<in> {1, 2, 3} \<and>
                        length (buffer ev) = length (buffer event0)))"
  using assms
  unfolding parse_message_def Let_def THREEBYTES_def
  by (auto split: if_splits sum.splits prod.splits)

lemma queue_contents_client_state [simp]:
  "queue_contents (s\<lparr>client_state := c\<rparr>) = queue_contents s"
  by (simp add: queue_contents_def)

lemma queue_contents_printf [simp]: "queue_contents (printf text s) = queue_contents s"
  by (simp add: queue_contents_def printf_def)

lemma stdout_queue_event [simp]: "stdout (queue_event ev s) = stdout s"
  by (simp add: queue_event_def)

lemma queue_contents_init: "queue_contents init_state = []"
  by (simp add: queue_contents_def init_state_def JACK_MIDI_QUEUE_SIZE_def)

text \<open>An event that changes the logical contents has been appended to them.\<close>

lemma queue_event_changes:
  assumes "queue_inv s" and "queue_contents (queue_event ev s) \<noteq> queue_contents s"
  shows "queue_contents (queue_event ev s) = queue_contents s @ [ev]"
proof -
  have "length (queue_contents s) \<noteq> 255"
  proof
    assume "length (queue_contents s) = 255"
    then have "queue_event ev s = s"
      using full_iff [OF assms(1)] by (simp add: queue_event_def)
    with assms(2) show False by simp
  qed
  with assms(1) show ?thesis by (rule queue_contents_queue_event)
qed

lemma parse_message_appends:
  assumes p: "parse_message param0 event0 msg s = Inr (rv, s')"
    and inv: "queue_inv s"
    and ne: "queue_contents s' \<noteq> queue_contents s"
  shows "\<exists>ev. queue_contents s' = queue_contents s @ [ev] \<and> time ev = 0 \<and>
              size_ev ev \<in> {1, 2, 3} \<and> length (buffer ev) = length (buffer event0)"
proof -
  from parse_message_cases [OF p] ne
  obtain ev where ev: "s' = queue_event ev s" "time ev = 0" "size_ev ev \<in> {1, 2, 3}"
      "length (buffer ev) = length (buffer event0)"
    by auto
  from ne have "queue_contents (queue_event ev s) \<noteq> queue_contents s"
    by (simp add: ev(1))
  with inv have "queue_contents s' = queue_contents s @ [ev]"
    unfolding ev(1) by (rule queue_event_changes)
  with ev show ?thesis by blast
qed

section \<open>Evaluating the parser on given lines\<close>

lemmas scan_defs = sscanf_def c_str_def isspace_def scan_number_def scan_unsigned_def
  has_hex_prefix_def scan_magnitude_def digit_in_def convert_def input_failure_def EOF_def
  c_char_at_def

lemma strncmp_numeral:
  "strncmp s1 s2 (numeral k) =
     (if c_char_at s1 \<noteq> c_char_at s2
      then (if (of_char (c_char_at s1) :: nat) < of_char (c_char_at s2) then - 1 else 1)
      else if c_char_at s1 = CHR 0x00 then 0
      else strncmp (tl s1) (tl s2) (pred_numeral k))"
  by (simp add: numeral_eq_Suc)

lemma sscanf_two_at_most_one:
  "sscanf msg ''2 %i\<newline>'' param \<noteq> Inr (2, param')"
  by (auto simp: sscanf_def input_failure_def EOF_def isspace_def
           split: list.splits option.splits sum.splits)

lemma eval_note_on:
  "parse_message [0, 0, 0] zero_event ''N 60 100'' init_state =
     Inr (0, queue_event \<lparr>time = 0, size_ev = 3, buffer = [0x90, 60, 100] @ replicate 13 0\<rparr> init_state)"
  by code_simp

lemma eval_garbage:
  "parse_message [0, 0, 0] zero_event ''garbage text'' init_state =
     Inr (0, init_state\<lparr>stdout := ['' -- Invalid Message, try 'help'\<newline>'']\<rparr>)"
  by code_simp

section \<open>Claims about the parser\<close>

text \<open>
  Claim C4 (prefix match, first rule first). Every line whose first four characters are
  \<^verbatim>\<open>exit\<close>, whatever follows them, sets the state flag to \<^verbatim>\<open>Exit\<close> and returns 0; nothing
  else changes: no event is queued, nothing is printed, and no later rule is tried (not even
  a \<^verbatim>\<open>sscanf\<close> is run, so the result does not depend on the rest of the line).
\<close>

theorem exit_prefix:
  assumes "take 4 msg = ''exit''"
  shows "parse_message param0 event0 msg s = Inr (0, s\<lparr>client_state := Exit\<rparr>)"
  using strncmp_prefix_exit [OF assms] by (simp add: parse_message_def)

theorem exit_prefix_witness:
  "take 4 ''exitNOW'' = ''exit'' \<and>
   parse_message [0, 0, 0] zero_event ''exitNOW'' init_state
     = Inr (0, init_state\<lparr>client_state := Exit\<rparr>)"
proof -
  have h: "take 4 ''exitNOW'' = ''exit''" by simp
  from exit_prefix [OF h, of "[0, 0, 0]" zero_event init_state] h show ?thesis by simp
qed

text \<open>
  Claim C6 (frame offset 0). Whenever \<^verbatim>\<open>parse_message\<close> returns and the logical contents
  of the queue are no longer what they were, exactly one event has been appended to them, and
  its \<^verbatim>\<open>time\<close> field, the frame offset, is 0.
\<close>

theorem parsed_event_time_zero:
  assumes "parse_message param0 event0 msg s = Inr (rv, s')"
    and "queue_inv s"
    and "queue_contents s' \<noteq> queue_contents s"
  shows "\<exists>ev. queue_contents s' = queue_contents s @ [ev] \<and> time ev = 0 \<and>
              fst (written ev) = 0"
  using parse_message_appends [OF assms] by (auto simp: written_def)

theorem parsed_event_time_zero_witness:
  "\<exists>s'. parse_message [0, 0, 0] zero_event ''N 60 100'' init_state = Inr (0, s') \<and>
         queue_inv init_state \<and>
         queue_contents s' \<noteq> queue_contents init_state \<and>
         (\<exists>ev. queue_contents s' = queue_contents init_state @ [ev] \<and> time ev = 0 \<and>
               fst (written ev) = 0)"
proof -
  let ?ev = "\<lparr>time = 0, size_ev = 3, buffer = [0x90, 60, 100] @ replicate 13 0\<rparr>"
  have c: "queue_contents (queue_event ?ev init_state) = queue_contents init_state @ [?ev]"
    by (rule queue_contents_queue_event [OF queue_inv_init]) (simp add: queue_contents_init)
  then have ne: "queue_contents (queue_event ?ev init_state) \<noteq> queue_contents init_state"
    by simp
  from parsed_event_time_zero [OF eval_note_on queue_inv_init ne] eval_note_on queue_inv_init ne
  show ?thesis by blast
qed

text \<open>
  Claim C8 (the diagnostics change nothing else). Whenever \<^verbatim>\<open>parse_message\<close> returns and
  has printed something, what it printed is the help text or the text for an invalid message,
  it returns 0, and the queue (its array and both indices) and the state flag are as before.
  Every other result comes from the exit, reconnect or event rules (lemma
  \<open>parse_message_cases\<close>), so no further outcome exists.
\<close>

theorem diagnostic_changes_nothing_else:
  assumes "parse_message param0 event0 msg s = Inr (rv, s')"
    and "stdout s' \<noteq> stdout s"
  shows "rv = 0 \<and>
         event_queue s' = event_queue s \<and>
         queued_events_start s' = queued_events_start s \<and>
         queued_events_end s' = queued_events_end s \<and>
         client_state s' = client_state s \<and>
         (stdout s' = stdout s @ ['' -- Sorry, help yourself and read the source.\<newline>''] \<or>
          stdout s' = stdout s @ ['' -- Invalid Message, try 'help'\<newline>''])"
  using parse_message_cases [OF assms(1)] assms(2)
  by (auto simp: printf_def)

theorem diagnostic_changes_nothing_else_witness:
  "parse_message [0, 0, 0] zero_event ''garbage text'' init_state
     = Inr (0, init_state\<lparr>stdout := ['' -- Invalid Message, try 'help'\<newline>'']\<rparr>) \<and>
   stdout (init_state\<lparr>stdout := ['' -- Invalid Message, try 'help'\<newline>'']\<rparr>)
     \<noteq> stdout init_state \<and>
   event_queue (init_state\<lparr>stdout := ['' -- Invalid Message, try 'help'\<newline>'']\<rparr>)
     = event_queue init_state \<and>
   client_state (init_state\<lparr>stdout := ['' -- Invalid Message, try 'help'\<newline>'']\<rparr>)
     = client_state init_state"
proof -
  have ne: "stdout (init_state\<lparr>stdout := ['' -- Invalid Message, try 'help'\<newline>'']\<rparr>)
     \<noteq> stdout init_state"
    by (simp add: init_state_def)
  from diagnostic_changes_nothing_else [OF eval_garbage ne] eval_garbage ne
  show ?thesis by blast
qed

text \<open>
  Claim C10 (sizes). Whenever \<^verbatim>\<open>parse_message\<close> changes the logical contents of the queue,
  the event appended has size 1, 2 or 3, which is at most the 16 bytes of its buffer; with a
  buffer of 16 bytes the write of \<^verbatim>\<open>process\<close> for this event copies exactly \<^verbatim>\<open>size\<close> bytes.
\<close>

theorem parsed_event_size:
  assumes "parse_message param0 event0 msg s = Inr (rv, s')"
    and "queue_inv s"
    and "queue_contents s' \<noteq> queue_contents s"
    and "length (buffer event0) = 16"
  shows "\<exists>ev. queue_contents s' = queue_contents s @ [ev] \<and>
              size_ev ev \<in> {1, 2, 3} \<and> size_ev ev \<le> 16 \<and>
              length (buffer ev) = 16 \<and>
              length (snd (written ev)) = size_ev ev"
proof -
  from parse_message_appends [OF assms(1-3)]
  obtain ev where ev: "queue_contents s' = queue_contents s @ [ev]" "size_ev ev \<in> {1, 2, 3}"
      "length (buffer ev) = length (buffer event0)"
    by blast
  from ev(2) have "size_ev ev \<le> 16" by auto
  moreover from this ev(3) assms(4) have "length (snd (written ev)) = size_ev ev"
    by (simp add: written_def)
  ultimately show ?thesis using ev assms(4) by auto
qed

theorem parsed_event_size_witness:
  "\<exists>s'. parse_message [0, 0, 0] zero_event ''N 60 100'' init_state = Inr (0, s') \<and>
         queue_inv init_state \<and>
         queue_contents s' \<noteq> queue_contents init_state \<and>
         length (buffer zero_event) = 16 \<and>
         (\<exists>ev. queue_contents s' = queue_contents init_state @ [ev] \<and>
               size_ev ev \<in> {1, 2, 3} \<and> size_ev ev \<le> 16 \<and>
               length (snd (written ev)) = size_ev ev)"
proof -
  let ?ev = "\<lparr>time = 0, size_ev = 3, buffer = [0x90, 60, 100] @ replicate 13 0\<rparr>"
  have c: "queue_contents (queue_event ?ev init_state) = queue_contents init_state @ [?ev]"
    by (rule queue_contents_queue_event [OF queue_inv_init]) (simp add: queue_contents_init)
  then have ne: "queue_contents (queue_event ?ev init_state) \<noteq> queue_contents init_state"
    by simp
  have l: "length (buffer zero_event) = 16" by (simp add: zero_event_def)
  from parsed_event_size [OF eval_note_on queue_inv_init ne l] eval_note_on queue_inv_init ne l
  show ?thesis by blast
qed

text \<open>
  Claim C3 (the two-byte rule). The format of the rule is \<^verbatim>\<open>"2 %i\n"\<close>, with one conversion
  only, so \<^verbatim>\<open>sscanf\<close> never returns the 2 the rule waits for (lemma
  \<open>sscanf_two_at_most_one\<close>) although the branch reads \<^verbatim>\<open>param[1]\<close>. On the line
  \<^verbatim>\<open>2 5 6\<close> the parser prints the text for an invalid message and queues no event, for every
  content of the stack and every state.
\<close>

theorem two_byte_line_rejected:
  "parse_message param0 event0 ''2 5 6\<newline>'' s
     = Inr (0, printf '' -- Invalid Message, try 'help'\<newline>'' s)"
  by (simp add: parse_message_def strncmp_numeral scan_defs)

text \<open>
  Claim C2 as stated, that \<^verbatim>\<open>queue_event\<close> returns failure on a full queue, does not hold:
  nothing is returned. On the full queue with write index 255 and read index 0 the line
  \<^verbatim>\<open>N 60 100\<close> is dropped, the globals stay as they were, and \<^verbatim>\<open>parse_message\<close> returns 0,
  the value it returns from the initial state, where the same event is stored.
\<close>

theorem queue_full_drop_unreported:
  "queue_inv (init_state\<lparr>queued_events_start := 255\<rparr>) \<and>
   (queued_events_start (init_state\<lparr>queued_events_start := 255\<rparr>) + 1) mod 256
     = queued_events_end (init_state\<lparr>queued_events_start := 255\<rparr>) \<and>
   parse_message [0, 0, 0] zero_event ''N 60 100'' (init_state\<lparr>queued_events_start := 255\<rparr>)
     = Inr (0, init_state\<lparr>queued_events_start := 255\<rparr>) \<and>
   parse_message [0, 0, 0] zero_event ''N 60 100'' init_state
     = Inr (0, queue_event
                 \<lparr>time = 0, size_ev = 3, buffer = [0x90, 60, 100] @ replicate 13 0\<rparr> init_state) \<and>
   queue_contents
     (queue_event \<lparr>time = 0, size_ev = 3, buffer = [0x90, 60, 100] @ replicate 13 0\<rparr> init_state)
     = [\<lparr>time = 0, size_ev = 3, buffer = [0x90, 60, 100] @ replicate 13 0\<rparr>]"
proof -
  have a: "queue_inv (init_state\<lparr>queued_events_start := 255\<rparr>)"
    by (simp add: queue_inv_def init_state_def JACK_MIDI_QUEUE_SIZE_def)
  have b: "(queued_events_start (init_state\<lparr>queued_events_start := 255\<rparr>) + 1) mod 256
     = queued_events_end (init_state\<lparr>queued_events_start := 255\<rparr>)"
    by (simp add: init_state_def)
  have c: "parse_message [0, 0, 0] zero_event ''N 60 100''
             (init_state\<lparr>queued_events_start := 255\<rparr>)
     = Inr (0, init_state\<lparr>queued_events_start := 255\<rparr>)"
    by code_simp
  have d: "queue_contents
     (queue_event \<lparr>time = 0, size_ev = 3, buffer = [0x90, 60, 100] @ replicate 13 0\<rparr> init_state)
     = [\<lparr>time = 0, size_ev = 3, buffer = [0x90, 60, 100] @ replicate 13 0\<rparr>]"
    using queue_contents_queue_event [OF queue_inv_init, of
        "\<lparr>time = 0, size_ev = 3, buffer = [0x90, 60, 100] @ replicate 13 0\<rparr>"]
    by (simp add: queue_contents_init)
  from a b c eval_note_on d show ?thesis by (intro conjI)
qed

section \<open>Reading integer numerals\<close>

lemma is_digit_cases:
  assumes "is_digit base c"
  shows "(c, digit_value c) \<in> set digit_table \<and> digit_value c < base"
proof -
  from assms obtain d where d: "map_of digit_table c = Some d" "d < base"
    by (auto simp: is_digit_def split: option.splits)
  then have "digit_value c = d" by (simp add: digit_value_def)
  with d map_of_SomeD [OF d(1)] show ?thesis by simp
qed

lemma digit_in_is_digit:
  assumes "is_digit base c"
  shows "digit_in base c = Some (digit_value c)"
proof -
  from is_digit_cases [OF assms]
  have m: "(c, digit_value c) \<in> set digit_table" and b: "digit_value c < base" by simp_all
  from m have "digit_in 16 c = Some (digit_value c) \<and> digit_value c < 16"
    unfolding digit_table_def by (auto simp: digit_in_def)
  with b show ?thesis
    by (auto simp: digit_in_def Let_def split: if_splits option.splits)
qed


lemma is_digit_char:
  assumes "is_digit base c"
  shows "\<not> isspace c" "c \<noteq> CHR 0x00" "c \<noteq> CHR ''-''" "c \<noteq> CHR ''+''"
    "c \<noteq> CHR ''x''" "c \<noteq> CHR ''X''"
  using is_digit_cases [OF assms] unfolding digit_table_def
  by (auto simp: isspace_def)

lemma isspace_of_char: "isspace c \<Longrightarrow> (of_char c :: int) \<le> 32"
  by (auto simp: isspace_def)

lemma isspace_not_nul: "isspace c \<Longrightarrow> c \<noteq> CHR 0x00"
  by (auto simp: isspace_def)

lemma scan_digits_stop:
  "rest = [] \<or> isspace (hd rest) \<Longrightarrow> scan_digits base acc rest = (acc, rest)"
  using isspace_of_char [of "hd rest"]
  by (cases rest) (auto simp: digit_in_def Let_def)

text \<open>Over a string of digits \<^verbatim>\<open>scan_digits\<close> computes their value, most significant first.\<close>

lemma scan_digits_digits:
  "list_all (is_digit base) ds \<Longrightarrow>
   scan_digits base acc (ds @ rest) =
     scan_digits base (foldl (\<lambda>v c. v * base + digit_value c) acc ds) rest"
  by (induction ds arbitrary: acc) (simp_all add: digit_in_is_digit)

lemma scan_digits_value:
  assumes "list_all (is_digit base) ds" and "rest = [] \<or> isspace (hd rest)"
  shows "scan_digits base 0 (ds @ rest) = (digits_value base ds, rest)"
  by (simp add: scan_digits_digits [OF assms(1)] scan_digits_stop [OF assms(2)] digits_value_def)

lemma scan_unsigned_body:
  assumes ok: "numeral_ok n" and rest: "rest = [] \<or> isspace (hd rest)"
  shows "scan_unsigned Conv_i (body_text n @ rest) = Some (magnitude n, rest)"
proof (cases n)
  case (Decimal_numeral ds)
  with ok obtain c cs where ds: "ds = c # cs" and c: "is_digit 10 c" "c \<noteq> CHR ''0''"
    and all: "list_all (is_digit 10) ds"
    by (cases ds) auto
  have "\<not> has_hex_prefix (c # cs @ rest)"
    using c(2) by (cases "cs @ rest") (simp_all add: has_hex_prefix_def)
  moreover have "scan_digits 10 0 (c # cs @ rest) = (digits_value 10 ds, rest)"
    using scan_digits_value [OF all rest] by (simp add: ds)
  ultimately show ?thesis
    using c by (simp add: Decimal_numeral ds scan_unsigned_def scan_magnitude_def
                  digit_in_is_digit [OF c(1)])
next
  case (Octal_numeral ds)
  with ok have all: "list_all (is_digit 8) ds" by simp
  have nx: "\<not> has_hex_prefix (CHR ''0'' # ds @ rest)"
  proof (cases ds)
    case Nil
    then show ?thesis using rest by (cases rest) (auto simp: has_hex_prefix_def isspace_def)
  next
    case (Cons c cs)
    with all have "is_digit 8 c" by simp
    from is_digit_char(5,6) [OF this] show ?thesis by (simp add: Cons has_hex_prefix_def)
  qed
  have z: "digit_in 8 (CHR ''0'') = Some 0" by (simp add: digit_in_def)
  have "scan_digits 8 0 (CHR ''0'' # ds @ rest) = (digits_value 8 ds, rest)"
    using scan_digits_value [OF all rest] by (simp add: z)
  with nx show ?thesis
    by (simp add: Octal_numeral scan_unsigned_def scan_magnitude_def z)
next
  case (Hex_numeral x ds)
  with ok obtain c cs where x: "x = CHR ''x'' \<or> x = CHR ''X''" and ds: "ds = c # cs"
    and c: "is_digit 16 c" and all: "list_all (is_digit 16) ds"
    by (cases ds) auto
  have hp: "has_hex_prefix (CHR ''0'' # x # ds @ rest)"
    using x by (simp add: has_hex_prefix_def)
  have "scan_digits 16 0 (c # cs @ rest) = (digits_value 16 ds, rest)"
    using scan_digits_value [OF all rest] by (simp add: ds)
  then have "scan_magnitude 16 (ds @ rest) = Some (digits_value 16 ds, rest)"
    by (simp add: ds scan_magnitude_def digit_in_is_digit [OF c])
  with hp show ?thesis
    by (simp add: Hex_numeral scan_unsigned_def)
qed

text \<open>A numeral begins with a digit or with a sign, never with white space or NUL.\<close>

lemma body_text_head:
  assumes "numeral_ok n"
  shows "\<exists>c cs. body_text n = c # cs \<and> is_digit 10 c"
proof (cases n)
  case (Decimal_numeral ds)
  with assms show ?thesis by (cases ds) auto
next
  case (Octal_numeral ds)
  then show ?thesis by (simp add: is_digit_def digit_table_def)
next
  case (Hex_numeral x ds)
  then show ?thesis by (simp add: is_digit_def digit_table_def)
qed

lemma numeral_text_head:
  assumes "numeral_ok n"
  shows "\<exists>c cs. numeral_text sg n = c # cs \<and> \<not> isspace c"
proof -
  from body_text_head [OF assms] obtain c cs where
    h: "body_text n = c # cs" "is_digit 10 c" by blast
  from is_digit_char(1) [OF h(2)] h(1) show ?thesis
    by (cases sg) (simp_all add: numeral_text_def isspace_def)
qed

lemma scan_number_numeral:
  assumes ok: "numeral_ok n" and rest: "rest = [] \<or> isspace (hd rest)"
  shows "scan_number Conv_i (numeral_text sg n @ rest) = Some (sg = Minus_sign, magnitude n, rest)"
proof -
  note u = scan_unsigned_body [OF ok rest]
  from body_text_head [OF ok] obtain c cs where
    h: "body_text n = c # cs" "is_digit 10 c" by blast
  show ?thesis
  proof (cases sg)
    case No_sign
    from u have "scan_unsigned Conv_i (c # cs @ rest) = Some (magnitude n, rest)"
      by (simp add: h(1))
    with is_digit_char(3,4) [OF h(2)] show ?thesis
      by (simp add: No_sign numeral_text_def scan_number_def h(1))
  next
    case Plus_sign
    with u show ?thesis by (simp add: numeral_text_def scan_number_def)
  next
    case Minus_sign
    with u show ?thesis by (simp add: numeral_text_def scan_number_def)
  qed
qed

lemma dropWhile_white:
  assumes "list_all isspace ws" and "t = [] \<or> \<not> isspace (hd t)"
  shows "dropWhile isspace (ws @ t) = t"
proof -
  from assms(1) have "dropWhile isspace (ws @ t) = dropWhile isspace t"
    by (induction ws) simp_all
  with assms(2) show ?thesis by (cases t) auto
qed

text \<open>
  A \<^verbatim>\<open>%i\<close> directive skips white space, reads a numeral that is followed by white space or
  by the end of the input, and stores its value when it is in the range of \<^verbatim>\<open>int\<close>.
\<close>

lemma run_directives_numeral:
  assumes ok: "numeral_ok n" and rest: "rest = [] \<or> isspace (hd rest)"
    and range: "in_int_range (numeral_value sg n)" and ws: "list_all isspace ws"
  shows "run_directives (Conv_i # ds) (ws @ numeral_text sg n @ rest) k param =
           run_directives ds rest (Suc k) (param[k := word_of_int (numeral_value sg n)])"
proof -
  from numeral_text_head [OF ok, of sg] obtain c cs where
    h: "numeral_text sg n = c # cs" "\<not> isspace c" by blast
  have d: "dropWhile isspace (ws @ numeral_text sg n @ rest) = c # cs @ rest"
    using dropWhile_white [OF ws, of "numeral_text sg n @ rest"] h by simp
  have "scan_number Conv_i (c # cs @ rest) = Some (sg = Minus_sign, magnitude n, rest)"
    using scan_number_numeral [OF ok rest, of sg] by (simp add: h(1))
  moreover have "convert Conv_i (sg = Minus_sign) (magnitude n)
                   = Inr (word_of_int (numeral_value sg n))"
    using range by (auto simp: convert_def Let_def in_int_range_def numeral_value_def)
  ultimately show ?thesis
    by (simp add: d)
qed

lemma c_str_Cons: "c_str (c # cs) = (if c = CHR 0x00 then [] else c # c_str cs)"
  by (simp add: c_str_def)

lemma c_str_append:
  "list_all (\<lambda>c. c \<noteq> CHR 0x00) xs \<Longrightarrow> c_str (xs @ ys) = xs @ c_str ys"
  by (induction xs) (simp_all add: c_str_Cons)

lemma c_str_white: "list_all isspace ws \<Longrightarrow> c_str (ws @ t) = ws @ c_str t"
  by (rule c_str_append) (induction ws; simp add: isspace_not_nul)

lemma c_str_numeral:
  assumes "numeral_ok n"
  shows "c_str (numeral_text sg n @ t) = numeral_text sg n @ c_str t"
proof -
  have b: "list_all (\<lambda>c. c \<noteq> CHR 0x00) ds" if "list_all (is_digit base) ds" for base ds
    using that by (induction ds) (auto dest: is_digit_char(2))
  have "list_all (\<lambda>c. c \<noteq> CHR 0x00) (body_text n)"
    using assms by (cases n) (auto simp: b)
  then have "list_all (\<lambda>c. c \<noteq> CHR 0x00) (numeral_text sg n)"
    by (cases sg) (simp_all add: numeral_text_def)
  then show ?thesis by (rule c_str_append)
qed

lemma c_str_rest:
  "rest = [] \<or> isspace (hd rest) \<Longrightarrow> c_str rest = [] \<or> isspace (hd (c_str rest))"
  by (cases rest) (auto simp: c_str_def isspace_def)

lemma low_bits_of_param:
  "(ucast ((word_of_int a :: 32 word) AND 0x7f) :: 8 word) = word_of_int (a AND 0x7f)"
  by (rule bit_word_eqI) (auto simp: bit_simps)

text \<open>
  Claim C5, as amended (Control Change). Take two numerals as \<^verbatim>\<open>%i\<close> reads them (an
  optional sign, then decimal digits not beginning with 0, or 0 and octal digits, or
  \<^verbatim>\<open>0x\<close> and hexadecimal digits) whose values are in the range of a C \<^verbatim>\<open>int\<close>, and a line
  made of \<^verbatim>\<open>CC\<close>, any white space or none, the first numeral, some white space, the second
  numeral, and then nothing or anything that begins with white space (the newline that
  \<^verbatim>\<open>fgets\<close> keeps, for one). Then \<^verbatim>\<open>parse_message\<close> returns 0 and hands to \<^verbatim>\<open>queue_event\<close>
  an event of time 0 and size 3 whose bytes are \<open>0xB0\<close>, \<open>v0 & 0x7F\<close> and \<open>v1 & 0x7F\<close>, where
  \<open>v0\<close> and \<open>v1\<close> are the values of the numerals. The witness has the line \<^verbatim>\<open>CC 1 2\<close> with
  the bytes \<open>0xB0, 0x01, 0x02\<close>, and a line with a sign, an octal and a hexadecimal numeral
  and a tab.
\<close>

theorem control_change_numerals:
  assumes "stack_ok param0 event0"
    and "numeral_ok na" and "in_int_range (numeral_value sa na)"
    and "numeral_ok nb" and "in_int_range (numeral_value sb nb)"
    and "list_all isspace ws1" and "list_all isspace ws2" and "ws2 \<noteq> []"
    and "rest = [] \<or> isspace (hd rest)"
  shows "\<exists>ev. parse_message param0 event0
                (''CC'' @ ws1 @ numeral_text sa na @ ws2 @ numeral_text sb nb @ rest) s
                = Inr (0, queue_event ev s) \<and>
              time ev = 0 \<and> size_ev ev = 3 \<and>
              take 3 (buffer ev) = [0xB0, word_of_int (numeral_value sa na AND 0x7F),
                                    word_of_int (numeral_value sb nb AND 0x7F)]"
proof -
  let ?A = "numeral_text sa na" and ?B = "numeral_text sb nb"
  let ?a = "numeral_value sa na" and ?b = "numeral_value sb nb"
  let ?line = "''CC'' @ ws1 @ ?A @ ws2 @ ?B @ rest"
  let ?ev = "event0\<lparr>time := 0, size_ev := 3,
       buffer := (buffer event0)[0 := 0xB0, 1 := word_of_int (?a AND 0x7F),
                                 2 := word_of_int (?b AND 0x7F)]\<rparr>"
  from assms(1) have len: "length param0 = 3" "length (buffer event0) = 16"
    by (simp_all add: stack_ok_def)
  have r: "c_str rest = [] \<or> isspace (hd (c_str rest))"
    using assms(9) by (rule c_str_rest)
  have sp: "ws2 @ ?B @ c_str rest = [] \<or> isspace (hd (ws2 @ ?B @ c_str rest))"
    using assms(7,8) by (cases ws2) simp_all
  have hA: "?A @ t = [] \<or> \<not> isspace (hd (?A @ t))" for t
    using numeral_text_head [OF assms(2), of sa] by auto
  have hB: "?B @ t = [] \<or> \<not> isspace (hd (?B @ t))" for t
    using numeral_text_head [OF assms(4), of sb] by auto
  have k1: "strncmp ?line ''exit'' 4 \<noteq> 0" "strncmp ?line ''reconnect'' 9 \<noteq> 0"
           "strncmp ?line ''help'' 4 \<noteq> 0"
    by (simp_all add: strncmp_numeral c_char_at_def)
  have k2: "sscanf ?line ''. %x %x %x\<newline>'' param0 = Inr (0, param0)"
    by (simp add: sscanf_def c_str_Cons isspace_def)
  have c: "c_str ?line = ''CC'' @ ws1 @ ?A @ ws2 @ ?B @ c_str rest"
    by (simp add: c_str_Cons c_str_white [OF assms(6)] c_str_white [OF assms(7)]
          c_str_numeral [OF assms(2)] c_str_numeral [OF assms(4)])
  have "run_directives (parse_format ''CC %i %i\<newline>'') (c_str ?line) 0 param0
          = run_directives [Conv_i, White_space, Conv_i, White_space]
              ([] @ ?A @ ws2 @ ?B @ c_str rest) 0 param0"
    unfolding c
    by (simp add: isspace_def dropWhile_white [OF assms(6) hA] del: run_directives.simps(4,5))
  also have "\<dots> = run_directives [White_space, Conv_i, White_space]
              (ws2 @ ?B @ c_str rest) (Suc 0) (param0[0 := word_of_int ?a])"
    by (rule run_directives_numeral [OF assms(2) sp assms(3)]) simp
  also have "\<dots> = run_directives [Conv_i, White_space]
              ([] @ ?B @ c_str rest) (Suc 0) (param0[0 := word_of_int ?a])"
    by (simp add: isspace_def dropWhile_white [OF assms(7) hB] del: run_directives.simps(4,5))
  also have "\<dots> = run_directives [White_space] (c_str rest) (Suc (Suc 0))
                      (param0[0 := word_of_int ?a, Suc 0 := word_of_int ?b])"
    by (rule run_directives_numeral [OF assms(4) r assms(5)]) simp
  also have "\<dots> = Inr (2, param0[0 := word_of_int ?a, Suc 0 := word_of_int ?b])"
    by simp
  finally have k3: "sscanf ?line ''CC %i %i\<newline>'' param0
      = Inr (2, param0[0 := word_of_int ?a, Suc 0 := word_of_int ?b])"
    by (simp only: sscanf_def)
  have rd: "param0[0 := word_of_int ?a, Suc 0 := word_of_int ?b] ! 0 = word_of_int ?a"
           "param0[0 := word_of_int ?a, Suc 0 := word_of_int ?b] ! Suc 0 = word_of_int ?b"
    using len(1) by simp_all
  have "parse_message param0 event0 ?line s = Inr (0, queue_event ?ev s)"
    using k1 by (simp add: parse_message_def k2 k3 rd THREEBYTES_def low_bits_of_param
                      del: append.simps)
  moreover have "take 3 (buffer ?ev) = [0xB0, word_of_int (?a AND 0x7F), word_of_int (?b AND 0x7F)]"
  proof -
    from len(2) obtain b0 b1 b2 bs where "buffer event0 = b0 # b1 # b2 # bs"
      by (auto simp: eval_nat_numeral length_Suc_conv)
    then show ?thesis by (simp add: eval_nat_numeral)
  qed
  ultimately show ?thesis by auto
qed

theorem control_change_numerals_witness:
  "stack_ok [0, 0, 0] zero_event \<and>
   numeral_ok (Decimal_numeral ''1'') \<and>
   in_int_range (numeral_value No_sign (Decimal_numeral ''1'')) \<and>
   numeral_ok (Decimal_numeral ''2'') \<and>
   in_int_range (numeral_value No_sign (Decimal_numeral ''2'')) \<and>
   list_all isspace '' '' \<and> '' '' \<noteq> [] \<and>
   ''CC'' @ '' '' @ numeral_text No_sign (Decimal_numeral ''1'') @ '' '' @
      numeral_text No_sign (Decimal_numeral ''2'') @ [] = ''CC 1 2'' \<and>
   (\<exists>ev. parse_message [0, 0, 0] zero_event ''CC 1 2'' init_state
            = Inr (0, queue_event ev init_state) \<and>
         time ev = 0 \<and> size_ev ev = 3 \<and> take 3 (buffer ev) = [0xB0, 0x01, 0x02]) \<and>
   numeral_ok (Octal_numeral ''10'') \<and>
   in_int_range (numeral_value Plus_sign (Octal_numeral ''10'')) \<and>
   numeral_ok (Hex_numeral CHR ''x'' ''1f'') \<and>
   in_int_range (numeral_value Minus_sign (Hex_numeral CHR ''x'' ''1f'')) \<and>
   list_all isspace [CHR 0x09, CHR '' ''] \<and>
   ''CC'' @ [] @ numeral_text Plus_sign (Octal_numeral ''10'') @ [CHR 0x09, CHR '' ''] @
      numeral_text Minus_sign (Hex_numeral CHR ''x'' ''1f'') @ ''\<newline>''
      = ''CC+010'' @ [CHR 0x09] @ '' -0x1f\<newline>'' \<and>
   (\<exists>ev. parse_message [0, 0, 0] zero_event (''CC+010'' @ [CHR 0x09] @ '' -0x1f\<newline>'') init_state
            = Inr (0, queue_event ev init_state) \<and>
         time ev = 0 \<and> size_ev ev = 3 \<and> take 3 (buffer ev) = [0xB0, 0x08, 0x61])"
proof -
  have h1: "stack_ok [0, 0, 0] zero_event" by (simp add: stack_ok_def zero_event_def)
  have n1: "numeral_ok (Decimal_numeral ''1'')" "numeral_ok (Decimal_numeral ''2'')"
    "numeral_ok (Octal_numeral ''10'')" "numeral_ok (Hex_numeral CHR ''x'' ''1f'')"
    by (simp_all add: is_digit_def digit_table_def)
  have v: "numeral_value No_sign (Decimal_numeral ''1'') = 1"
    "numeral_value No_sign (Decimal_numeral ''2'') = 2"
    "numeral_value Plus_sign (Octal_numeral ''10'') = 8"
    "numeral_value Minus_sign (Hex_numeral CHR ''x'' ''1f'') = - 31"
    by (simp_all add: numeral_value_def digits_value_def digit_value_def digit_table_def)
  have r: "in_int_range 1" "in_int_range 2" "in_int_range 8" "in_int_range (- 31)"
    by (simp_all add: in_int_range_def)
  have w: "list_all isspace '' ''" "'' '' \<noteq> []" "list_all isspace [CHR 0x09, CHR '' '']"
    "[CHR 0x09, CHR '' ''] \<noteq> []" "list_all isspace []"
    "([]::string) = [] \<or> isspace (hd [])" "''\<newline>'' = [] \<or> isspace (hd ''\<newline>'')"
    by (simp_all add: isspace_def)
  have l1: "''CC'' @ '' '' @ numeral_text No_sign (Decimal_numeral ''1'') @ '' '' @
      numeral_text No_sign (Decimal_numeral ''2'') @ [] = ''CC 1 2''"
    by (simp add: numeral_text_def)
  have l2: "''CC'' @ [] @ numeral_text Plus_sign (Octal_numeral ''10'') @ [CHR 0x09, CHR '' ''] @
      numeral_text Minus_sign (Hex_numeral CHR ''x'' ''1f'') @ ''\<newline>''
      = ''CC+010'' @ [CHR 0x09] @ '' -0x1f\<newline>''"
    by (simp add: numeral_text_def)
  have m: "(word_of_int (- 31 AND 0x7F) :: 8 word) = 0x61" by simp
  from control_change_numerals [OF h1 n1(1) _ n1(2) _ w(1) w(1) w(2) w(6),
        of No_sign No_sign init_state]
  have e1: "\<exists>ev. parse_message [0, 0, 0] zero_event ''CC 1 2'' init_state
            = Inr (0, queue_event ev init_state) \<and>
         time ev = 0 \<and> size_ev ev = 3 \<and> take 3 (buffer ev) = [0xB0, 0x01, 0x02]"
    unfolding l1 v by (simp add: r)
  from control_change_numerals [OF h1 n1(3) _ n1(4) _ w(5) w(3) w(4) w(7),
        of Plus_sign Minus_sign init_state]
  have e2: "\<exists>ev. parse_message [0, 0, 0] zero_event (''CC+010'' @ [CHR 0x09] @ '' -0x1f\<newline>'') init_state
            = Inr (0, queue_event ev init_state) \<and>
         time ev = 0 \<and> size_ev ev = 3 \<and> take 3 (buffer ev) = [0xB0, 0x08, 0x61]"
    unfolding l2 v by (simp add: r m)
  from h1 n1 r w l1 l2 e1 e2 show ?thesis unfolding v by (intro conjI)
qed

text \<open>
  Claim C5 as stated, with the integers read as the decimal numbers they look like, does not
  hold: a leading 0 makes \<^verbatim>\<open>%i\<close> read octal. On the line \<^verbatim>\<open>CC 010 5\<close> the bytes queued are
  \<open>0xB0, 0x08, 0x05\<close>, and not \<open>0xB0, 10 & 0x7F, 5 & 0x7F\<close>.
\<close>

theorem control_change_leading_zero_octal:
  "parse_message [0, 0, 0] zero_event ''CC 010 5'' init_state
     = Inr (0, queue_event
                 \<lparr>time = 0, size_ev = 3, buffer = [0xB0, 0x08, 0x05] @ replicate 13 0\<rparr>
                 init_state) \<and>
   [0xB0, 0x08, 0x05] \<noteq> [0xB0, word_of_int (10 AND 0x7F), word_of_int (5 AND 0x7F) :: 8 word]"
proof -
  have a: "parse_message [0, 0, 0] zero_event ''CC 010 5'' init_state
     = Inr (0, queue_event
                 \<lparr>time = 0, size_ev = 3, buffer = [0xB0, 0x08, 0x05] @ replicate 13 0\<rparr>
                 init_state)"
    by code_simp
  have b: "[0xB0, 0x08, 0x05] \<noteq> [0xB0, word_of_int (10 AND 0x7F), word_of_int (5 AND 0x7F) :: 8 word]"
    by simp
  from a b show ?thesis by (intro conjI)
qed

end
